theory Spec2Isabelle
  imports Complex_Main
begin

section \<open>Values of type doublereal\<close>

text \<open>
  The routine \<^verbatim>\<open>enorm_\<close> of \<^verbatim>\<open>minpack/enorm.c\<close> computes with C doubles.
  They are modelled as idealised IEEE 754 values: a finite value is a real number
  (unbounded range, no rounding), and the special values are the two infinities and
  NaN, with the IEEE rules for them: a comparison with NaN is false, a non-zero
  finite value divided by zero is an infinity, \<open>0/0\<close>, \<open>\<infinity>/\<infinity>\<close>, \<open>0\<cdot>\<infinity>\<close> and
  \<open>\<infinity>-\<infinity>\<close> are NaN, and no operation traps. Rounding, overflow, underflow and the
  sign of zero are not modelled; a zero divisor is taken as \<open>+0\<close>, which is what the
  only zero divisor of the routine (the converted length \<open>n = 0\<close>) is.
\<close>

datatype dbl = Fin real | PInf | NInf | NaN

fun dlt :: "dbl \<Rightarrow> dbl \<Rightarrow> bool" where
  "dlt NaN b = False"
| "dlt (Fin a) (Fin b) = (a < b)"
| "dlt (Fin a) PInf = True"
| "dlt (Fin a) NInf = False"
| "dlt (Fin a) NaN = False"
| "dlt PInf b = False"
| "dlt NInf (Fin b) = True"
| "dlt NInf PInf = True"
| "dlt NInf NInf = False"
| "dlt NInf NaN = False"

definition deq :: "dbl \<Rightarrow> dbl \<Rightarrow> bool" where
  "deq a b = (a \<noteq> NaN \<and> a = b)"

definition dne :: "dbl \<Rightarrow> dbl \<Rightarrow> bool" where
  "dne a b = (\<not> deq a b)"

definition dle :: "dbl \<Rightarrow> dbl \<Rightarrow> bool" where
  "dle a b = (dlt a b \<or> deq a b)"

definition dgt :: "dbl \<Rightarrow> dbl \<Rightarrow> bool" where
  "dgt a b = dlt b a"

definition dge :: "dbl \<Rightarrow> dbl \<Rightarrow> bool" where
  "dge a b = dle b a"

fun dadd :: "dbl \<Rightarrow> dbl \<Rightarrow> dbl" where
  "dadd NaN b = NaN"
| "dadd (Fin a) (Fin b) = Fin (a + b)"
| "dadd (Fin a) PInf = PInf"
| "dadd (Fin a) NInf = NInf"
| "dadd (Fin a) NaN = NaN"
| "dadd PInf (Fin b) = PInf"
| "dadd PInf PInf = PInf"
| "dadd PInf NInf = NaN"
| "dadd PInf NaN = NaN"
| "dadd NInf (Fin b) = NInf"
| "dadd NInf PInf = NaN"
| "dadd NInf NInf = NInf"
| "dadd NInf NaN = NaN"

fun dmul :: "dbl \<Rightarrow> dbl \<Rightarrow> dbl" where
  "dmul NaN b = NaN"
| "dmul (Fin a) (Fin b) = Fin (a * b)"
| "dmul (Fin a) PInf = (if a = 0 then NaN else if 0 < a then PInf else NInf)"
| "dmul (Fin a) NInf = (if a = 0 then NaN else if 0 < a then NInf else PInf)"
| "dmul (Fin a) NaN = NaN"
| "dmul PInf (Fin b) = (if b = 0 then NaN else if 0 < b then PInf else NInf)"
| "dmul PInf PInf = PInf"
| "dmul PInf NInf = NInf"
| "dmul PInf NaN = NaN"
| "dmul NInf (Fin b) = (if b = 0 then NaN else if 0 < b then NInf else PInf)"
| "dmul NInf PInf = NInf"
| "dmul NInf NInf = PInf"
| "dmul NInf NaN = NaN"

fun ddiv :: "dbl \<Rightarrow> dbl \<Rightarrow> dbl" where
  "ddiv NaN b = NaN"
| "ddiv (Fin a) (Fin b) =
     (if b = 0 then (if a = 0 then NaN else if 0 < a then PInf else NInf)
      else Fin (a / b))"
| "ddiv (Fin a) PInf = Fin 0"
| "ddiv (Fin a) NInf = Fin 0"
| "ddiv (Fin a) NaN = NaN"
| "ddiv PInf (Fin b) = (if 0 \<le> b then PInf else NInf)"
| "ddiv PInf PInf = NaN"
| "ddiv PInf NInf = NaN"
| "ddiv PInf NaN = NaN"
| "ddiv NInf (Fin b) = (if 0 \<le> b then NInf else PInf)"
| "ddiv NInf PInf = NaN"
| "ddiv NInf NInf = NaN"
| "ddiv NInf NaN = NaN"

fun dsqrt :: "dbl \<Rightarrow> dbl" where
  "dsqrt (Fin a) = (if a < 0 then NaN else Fin (sqrt a))"
| "dsqrt PInf = PInf"
| "dsqrt NInf = NaN"
| "dsqrt NaN = NaN"

text \<open>
  Modelled from the spec: the macro \<^verbatim>\<open>abs\<close> comes from \<^verbatim>\<open>f2c.h\<close>, which is not among
  the sources; the spec writes \<open>xabs = |x[i]|\<close>, the absolute value.
\<close>

fun dabs :: "dbl \<Rightarrow> dbl" where
  "dabs (Fin a) = Fin \<bar>a\<bar>"
| "dabs PInf = PInf"
| "dabs NInf = PInf"
| "dabs NaN = NaN"

definition is_fin :: "dbl \<Rightarrow> bool" where
  "is_fin a = (case a of Fin r \<Rightarrow> True | _ \<Rightarrow> False)"

section \<open>The routine\<close>

text \<open>
  The initialised data of \<^verbatim>\<open>enorm_\<close> (lines 19 to 22). The decimal literals are taken
  at their exact value.
\<close>

definition one_d :: dbl where
  "one_d = Fin 1"

definition zero_d :: dbl where
  "zero_d = Fin 0"

definition rdwarf :: dbl where
  "rdwarf = Fin (3834 / 10 ^ 23)"

definition rgiant :: dbl where
  "rgiant = Fin (1304 * 10 ^ 16)"

text \<open>
  The local variables of line 32 and 33 are declared \<^verbatim>\<open>static\<close>: they live across
  calls, so the routine takes their values in and gives them back. \<open>ix\<close> is the
  source's \<^verbatim>\<open>i__\<close>. The field \<open>divs\<close> is no variable of the program: it is a
  ghost trace of the divisions executed in the current call, the latest first, each
  with the source line of the division and the value of its divisor.
\<close>

datatype site = At82 | At99 | At105 | At117 | At124 | At147 | At154 | At157

record vars =
  s1 :: dbl
  s2 :: dbl
  s3 :: dbl
  xabs :: dbl
  x1max :: dbl
  x3max :: dbl
  agiant :: dbl
  floatn :: dbl
  ix :: int
  divs :: "(site \<times> dbl) list"

datatype fault = OutOfBounds | Indeterminate

text \<open>Lines 76 to 82; the trace starts with the divisor of line 82.\<close>

definition init :: "int \<Rightarrow> vars \<Rightarrow> vars" where
  "init n st =
     st\<lparr>s1 := zero_d, s2 := zero_d, s3 := zero_d, x1max := zero_d, x3max := zero_d,
        floatn := Fin (of_int n), agiant := ddiv rgiant (Fin (of_int n)),
        divs := [(At82, Fin (of_int n))]\<rparr>"

text \<open>Label L70 (lines 135 and 136): the sum for intermediate components.\<close>

definition L70 :: "vars \<Rightarrow> vars" where
  "L70 st = st\<lparr>s2 := dadd (s2 st) (dmul (xabs st) (xabs st))\<rparr>"

text \<open>Label L10 (lines 105 and 106).\<close>

definition L10 :: "vars \<Rightarrow> vars" where
  "L10 st =
     (let d = ddiv (xabs st) (x1max st)
      in st\<lparr>s1 := dadd (s1 st) (dmul d d), divs := (At105, x1max st) # divs st\<rparr>)"

text \<open>Label L40 (lines 122 to 126).\<close>

definition L40 :: "vars \<Rightarrow> vars" where
  "L40 st =
     (if dne (xabs st) zero_d
      then (let d = ddiv (xabs st) (x3max st)
            in st\<lparr>s3 := dadd (s3 st) (dmul d d), divs := (At124, x3max st) # divs st\<rparr>)
      else st)"

text \<open>Label L30 (lines 113 to 120): the sum for small components.\<close>

definition L30 :: "vars \<Rightarrow> vars" where
  "L30 st =
     (if dle (xabs st) (x3max st) then L40 st
      else (let d = ddiv (x3max st) (xabs st)
            in st\<lparr>s3 := dadd one_d (dmul (s3 st) (dmul d d)), x3max := xabs st,
                  divs := (At117, xabs st) # divs st\<rparr>))"

text \<open>The loop body after the assignment to \<^verbatim>\<open>xabs\<close> (lines 86 to 139).\<close>

definition body :: "vars \<Rightarrow> vars" where
  "body st =
     (if dgt (xabs st) rdwarf \<and> dlt (xabs st) (agiant st) then L70 st
      else if dle (xabs st) rdwarf then L30 st
      else if dle (xabs st) (x1max st) then L10 st
      else (let d = ddiv (x1max st) (xabs st)
            in st\<lparr>s1 := dadd one_d (dmul (s1 st) (dmul d d)), x1max := xabs st,
                  divs := (At99, xabs st) # divs st\<rparr>))"

text \<open>
  After \<^verbatim>\<open>--x\<close> (line 73) the element \<^verbatim>\<open>x[i]\<close> is the \<open>i\<close>-th of the array, counted
  from 1. A read outside the array is undefined in C: the model stops with a fault.
\<close>

definition rd :: "dbl list \<Rightarrow> int \<Rightarrow> dbl option" where
  "rd x i = (if 1 \<le> i \<and> i \<le> int (length x) then Some (x ! nat (i - 1)) else None)"

text \<open>One iteration: line 85, the body, and the increment of line 84.\<close>

definition iter :: "vars \<Rightarrow> dbl \<Rightarrow> vars" where
  "iter st v = (body (st\<lparr>xabs := dabs v\<rparr>))\<lparr>ix := ix st + 1\<rparr>"

text \<open>The loop of line 84, from the current \<open>ix\<close> up to the bound \<open>i1\<close> (\<^verbatim>\<open>i__1\<close>).\<close>

function loop :: "int \<Rightarrow> dbl list \<Rightarrow> vars \<Rightarrow> fault + vars" where
  "loop i1 x st =
     (if ix st \<le> i1
      then (case rd x (ix st) of
              None \<Rightarrow> Inl OutOfBounds
            | Some v \<Rightarrow> loop i1 x (iter st v))
      else Inr st)"
  by pat_completeness auto
termination
  by (relation "measure (\<lambda>(i1, x, st). nat (i1 + 1 - ix st))") (auto simp: iter_def)

declare loop.simps [simp del]

text \<open>The two formulas of lines 154 and 157.\<close>

definition ret154 :: "vars \<Rightarrow> dbl" where
  "ret154 st =
     dsqrt (dmul (s2 st)
              (dadd one_d (dmul (ddiv (x3max st) (s2 st)) (dmul (x3max st) (s3 st)))))"

definition ret157 :: "vars \<Rightarrow> dbl" where
  "ret157 st =
     dsqrt (dmul (x3max st)
              (dadd (ddiv (s2 st) (x3max st)) (dmul (x3max st) (s3 st))))"

text \<open>
  The calculation of the norm (lines 144 to 164). \<^verbatim>\<open>ret_val\<close> is an automatic
  variable without initialiser: \<open>None\<close> stands for "not assigned". The two tests of
  lines 153 and 156 are made one after the other, as in the source.
\<close>

definition calc :: "vars \<Rightarrow> dbl option \<times> vars" where
  "calc st =
     (if deq (s1 st) zero_d
      then (if deq (s2 st) zero_d
            then (Some (dmul (x3max st) (dsqrt (s3 st))), st)
            else (let (r1, st1) =
                        (if dge (s2 st) (x3max st)
                         then (Some (ret154 st), st\<lparr>divs := (At154, s2 st) # divs st\<rparr>)
                         else (None, st))
                  in (if dlt (s2 st) (x3max st)
                      then (Some (ret157 st), st1\<lparr>divs := (At157, x3max st) # divs st1\<rparr>)
                      else (r1, st1))))
      else (Some (dmul (x1max st)
                    (dsqrt (dadd (s1 st) (ddiv (ddiv (s2 st) (x1max st)) (x1max st))))),
            st\<lparr>divs := (At147, x1max st) # (At147, x1max st) # divs st\<rparr>))"

text \<open>
  Modelled from the spec: the types \<^verbatim>\<open>integer\<close> and \<^verbatim>\<open>doublereal\<close> are declared in
  \<^verbatim>\<open>f2c.h\<close>, which is not among the sources; the spec has an integer length and
  double-precision values. The length is an \<open>int\<close> (its conversion to \<^verbatim>\<open>doublereal\<close>
  on line 81 is exact), the array a list of \<open>dbl\<close>.

  The routine: \<open>enorm st n x\<close> is the call \<^verbatim>\<open>enorm_(&n, x)\<close> made when the static
  variables hold \<open>st\<close>; it gives the value returned and the static variables left
  behind, or a fault.
\<close>

definition enorm :: "vars \<Rightarrow> int \<Rightarrow> dbl list \<Rightarrow> fault + dbl \<times> vars" where
  "enorm st n x =
     (case loop n x ((init n st)\<lparr>ix := 1\<rparr>) of
        Inl e \<Rightarrow> Inl e
      | Inr st' \<Rightarrow>
          (case calc st' of
             (None, st'') \<Rightarrow> Inl Indeterminate
           | (Some r, st'') \<Rightarrow> Inr (r, st'')))"

text \<open>Some values of the static variables, for concrete runs.\<close>

definition boot :: vars where
  "boot = \<lparr>s1 = Fin 0, s2 = Fin 0, s3 = Fin 0, xabs = Fin 0, x1max = Fin 0, x3max = Fin 0,
           agiant = Fin 0, floatn = Fin 0, ix = 0, divs = []\<rparr>"



section \<open>The description of the routine in the specification\<close>

text \<open>
  The specification describes one step of the pass as a three-way classification of
  \<open>xabs\<close> followed by the update of the bucket's accumulators, and the combination
  of the buckets as a nested choice. Both are written down here in its words, to be
  compared with the definitions above.
\<close>

datatype bucket = Small | Intermediate | Large

definition bucket_of :: "dbl \<Rightarrow> dbl \<Rightarrow> bucket" where
  "bucket_of ag xa =
     (if dlt rdwarf xa \<and> dlt xa ag then Intermediate
      else if dle xa rdwarf then Small
      else Large)"

text \<open>The "rescale" update \<open>s = 1 + s * (m / xabs)^2\<close> and the "accumulate" update
  \<open>s += (xabs / m)^2\<close> of a scaled sum \<open>s\<close> with pivot \<open>m\<close>.\<close>

definition rescale :: "dbl \<Rightarrow> dbl \<Rightarrow> dbl \<Rightarrow> dbl" where
  "rescale s m xa = dadd one_d (dmul s (dmul (ddiv m xa) (ddiv m xa)))"

definition accum :: "dbl \<Rightarrow> dbl \<Rightarrow> dbl \<Rightarrow> dbl" where
  "accum s m xa = dadd s (dmul (ddiv xa m) (ddiv xa m))"

text \<open>
  The step for one element \<open>xi\<close>. The test that chooses the rescale update in the
  large bucket is a parameter: the specification words it "if \<open>xabs > x1max\<close>".
\<close>

definition step_by :: "(dbl \<Rightarrow> dbl \<Rightarrow> bool) \<Rightarrow> vars \<Rightarrow> dbl \<Rightarrow> vars" where
  "step_by newmax st xi =
     (let xa = dabs xi
      in case bucket_of (agiant st) xa of
           Intermediate \<Rightarrow> st\<lparr>s2 := dadd (s2 st) (dmul xa xa)\<rparr>
         | Small \<Rightarrow>
             (if dgt xa (x3max st)
              then st\<lparr>s3 := rescale (s3 st) (x3max st) xa, x3max := xa\<rparr>
              else if dne xa zero_d then st\<lparr>s3 := accum (s3 st) (x3max st) xa\<rparr>
              else st)
         | Large \<Rightarrow>
             (if newmax xa (x1max st)
              then st\<lparr>s1 := rescale (s1 st) (x1max st) xa, x1max := xa\<rparr>
              else st\<lparr>s1 := accum (s1 st) (x1max st) xa\<rparr>))"

definition step_spec :: "vars \<Rightarrow> dbl \<Rightarrow> vars" where
  "step_spec = step_by dgt"

text \<open>The same step with the test of the source, "unless \<open>xabs <= x1max\<close>".\<close>

definition step_unless_le :: "vars \<Rightarrow> dbl \<Rightarrow> vars" where
  "step_unless_le = step_by (\<lambda>xa m. \<not> dle xa m)"

text \<open>The five accumulators of a state.\<close>

definition acc :: "vars \<Rightarrow> dbl \<times> dbl \<times> dbl \<times> dbl \<times> dbl" where
  "acc st = (s1 st, s2 st, s3 st, x1max st, x3max st)"

text \<open>Step 4 of the algorithm of the specification.\<close>

definition combine_spec :: "vars \<Rightarrow> dbl" where
  "combine_spec st =
     (if dne (s1 st) zero_d
      then dmul (x1max st) (dsqrt (dadd (s1 st) (ddiv (ddiv (s2 st) (x1max st)) (x1max st))))
      else if dne (s2 st) zero_d
      then (if dge (s2 st) (x3max st)
            then dsqrt (dmul (s2 st)
                   (dadd one_d (dmul (ddiv (x3max st) (s2 st)) (dmul (x3max st) (s3 st)))))
            else dsqrt (dmul (x3max st)
                   (dadd (ddiv (s2 st) (x3max st)) (dmul (x3max st) (s3 st)))))
      else dmul (x3max st) (dsqrt (s3 st)))"

section \<open>Invariants of the pass\<close>

definition fin_nonneg :: "dbl \<Rightarrow> bool" where
  "fin_nonneg a = (case a of Fin r \<Rightarrow> 0 \<le> r | _ \<Rightarrow> False)"

text \<open>What holds of the accumulators after any number of iterations, on any input.\<close>

definition inv_acc :: "vars \<Rightarrow> bool" where
  "inv_acc st =
     (fin_nonneg (s2 st) \<and> fin_nonneg (x3max st) \<and>
      (s1 st = Fin 0 \<and> x1max st = Fin 0 \<or> x1max st = NaN \<or> dlt (Fin 0) (x1max st)))"

text \<open>
  Every division so far had a divisor that is positive, or that is a NaN where the
  divisor is \<open>xabs\<close> on line 99 or \<open>x1max\<close> on line 147.
\<close>

definition divs_ok :: "(site \<times> dbl) list \<Rightarrow> bool" where
  "divs_ok ds =
     list_all (\<lambda>(l, d). dlt (Fin 0) d \<or> (l = At99 \<or> l = At147) \<and> d = NaN) ds"

text \<open>
  An input without NaN and with at most one infinite element, and what holds of
  the accumulators on such an input.
\<close>

definition tame :: "dbl list \<Rightarrow> bool" where
  "tame x = (list_all (\<lambda>v. v \<noteq> NaN) x \<and> length (filter (\<lambda>v. \<not> is_fin v) x) \<le> 1)"

text \<open>IEEE \<open>a >= 0\<close>.\<close>

definition nonneg :: "dbl \<Rightarrow> bool" where
  "nonneg a = dge a zero_d"

definition inv_ok :: "vars \<Rightarrow> bool" where
  "inv_ok st =
     (fin_nonneg (s1 st) \<and> fin_nonneg (s2 st) \<and> fin_nonneg (s3 st) \<and> fin_nonneg (x3max st) \<and>
      (x1max st = PInf \<and> s1 st \<noteq> Fin 0 \<or>
       fin_nonneg (x1max st) \<and> (s1 st = Fin 0 \<or> x1max st \<noteq> Fin 0)))"

text \<open>The state \<open>st\<close> is as it should be, and so is the part of the input still to be read.\<close>

definition good :: "vars \<Rightarrow> dbl list \<Rightarrow> bool" where
  "good st rest =
     (inv_ok st \<and> list_all (\<lambda>v. v \<noteq> NaN) rest \<and>
      (x1max st = PInf \<longrightarrow> list_all is_fin rest) \<and>
      length (filter (\<lambda>v. \<not> is_fin v) rest) \<le> 1)"

section \<open>Basic facts\<close>

lemma dcmp_Fin [simp]:
  "dle (Fin a) (Fin b) = (a \<le> b)"
  "dge (Fin a) (Fin b) = (b \<le> a)"
  "dgt (Fin a) (Fin b) = (b < a)"
  "deq (Fin a) (Fin b) = (a = b)"
  "dne (Fin a) (Fin b) = (a \<noteq> b)"
  by (auto simp: dle_def dge_def dgt_def deq_def dne_def)

lemma dcmp_NaN [simp]:
  "dlt a NaN = False" "dle NaN b = False" "dle a NaN = False"
  "dgt NaN b = False" "dgt a NaN = False" "dge NaN b = False" "dge a NaN = False"
  "deq NaN b = False" "deq a NaN = False"
  by (cases a; cases b; simp add: dle_def dge_def dgt_def deq_def)+

lemma darith_NaN [simp]:
  "dadd a NaN = NaN" "dmul a NaN = NaN" "ddiv a NaN = NaN"
  by (cases a; simp)+

lemma fin_nonnegE: "fin_nonneg a \<Longrightarrow> (\<And>r. a = Fin r \<Longrightarrow> 0 \<le> r \<Longrightarrow> P) \<Longrightarrow> P"
  by (cases a) (simp_all add: fin_nonneg_def)

lemma fin_nonneg_Fin [simp]: "fin_nonneg (Fin r) = (0 \<le> r)"
  by (simp add: fin_nonneg_def)

lemma fin_nonneg_simps [simp]: "\<not> fin_nonneg PInf" "\<not> fin_nonneg NInf" "\<not> fin_nonneg NaN"
  by (simp_all add: fin_nonneg_def)

lemma ix_iter [simp]: "ix (iter st v) = ix st + 1"
  by (simp add: iter_def)

lemma iter_zero:
  assumes "fin_nonneg (x3max st)"
  shows "iter st (Fin 0) = st\<lparr>xabs := Fin 0, ix := ix st + 1\<rparr>"
proof -
  obtain m where "x3max st = Fin m" "0 \<le> m"
    using assms by (rule fin_nonnegE)
  then show ?thesis
    by (simp add: iter_def body_def L30_def L40_def rdwarf_def zero_d_def)
qed

lemma foldl_iter_zeros:
  "fin_nonneg (x3max st) \<Longrightarrow> \<forall>v\<in>set zs. v = Fin 0 \<Longrightarrow>
   acc (foldl iter st zs) = acc st \<and> divs (foldl iter st zs) = divs st \<and>
   agiant (foldl iter st zs) = agiant st"
proof (induction zs arbitrary: st)
  case Nil
  then show ?case by simp
next
  case (Cons z zs)
  have z: "z = Fin 0" using Cons.prems by simp
  have st': "iter st z = st\<lparr>xabs := Fin 0, ix := ix st + 1\<rparr>"
    using Cons.prems z by (simp add: iter_zero)
  have "fin_nonneg (x3max (iter st z))" using Cons.prems st' by simp
  then have "acc (foldl iter (iter st z) zs) = acc (iter st z) \<and>
             divs (foldl iter (iter st z) zs) = divs (iter st z) \<and>
             agiant (foldl iter (iter st z) zs) = agiant (iter st z)"
    using Cons.prems by (intro Cons.IH) simp_all
  then show ?case by (simp add: st' acc_def)
qed

lemma loop_foldl_aux:
  "ix st = int j + 1 \<Longrightarrow> j + d = m \<Longrightarrow> m \<le> length x \<Longrightarrow>
   loop (int m) x st = Inr (foldl iter st (take d (drop j x)))"
proof (induction d arbitrary: j st)
  case 0
  then show ?case by (simp add: loop.simps)
next
  case (Suc d)
  from Suc.prems have jm: "j < length x" by simp
  have rd: "rd x (ix st) = Some (x ! j)"
    using Suc.prems by (simp add: rd_def)
  have step: "loop (int m) x st = loop (int m) x (iter st (x ! j))"
    using Suc.prems rd by (subst loop.simps) simp
  have "loop (int m) x (iter st (x ! j)) =
        Inr (foldl iter (iter st (x ! j)) (take d (drop (Suc j) x)))"
    using Suc.prems by (intro Suc.IH) simp_all
  moreover have "take (Suc d) (drop j x) = x ! j # take d (drop (Suc j) x)"
    using jm by (simp add: Cons_nth_drop_Suc [symmetric])
  ultimately show ?case using step by simp
qed

lemma loop_foldl:
  "ix st = 1 \<Longrightarrow> k \<le> length x \<Longrightarrow> loop (int k) x st = Inr (foldl iter st (take k x))"
  using loop_foldl_aux [of st 0 k k x] by simp

lemma loop_all:
  "n = int (length x) \<Longrightarrow>
   loop n x ((init n st)\<lparr>ix := 1\<rparr>) = Inr (foldl iter ((init n st)\<lparr>ix := 1\<rparr>) x)"
  using loop_foldl [of "(init n st)\<lparr>ix := 1\<rparr>" "length x" x] by simp

lemma acc_init [simp]: "acc ((init n st)\<lparr>ix := i\<rparr>) = (Fin 0, Fin 0, Fin 0, Fin 0, Fin 0)"
  by (simp add: acc_def init_def zero_d_def)

lemma agiant_init_zero: "agiant (init 0 st) = PInf"
  by (simp add: init_def rgiant_def)

lemma calc_zero:
  "acc st = (Fin 0, Fin 0, Fin 0, Fin 0, Fin 0) \<Longrightarrow> calc st = (Some (Fin 0), st)"
  by (simp add: acc_def calc_def zero_d_def)

section \<open>The empty vector and the zero vector\<close>

text \<open>
  Claim C2. On the empty vector (\<open>n = 0\<close>) and on a vector of zeros of any length
  the routine returns exactly \<open>0.0\<close> and does not fault, whatever the static
  variables held before. There is no test of \<open>n = 0\<close> in the source: the division
  \<open>rgiant / 0\<close> of line 82 gives \<open>+\<infinity>\<close> in IEEE arithmetic (lemma \<open>agiant_init_zero\<close>),
  which no later step reads, as the loop is not entered.
\<close>

theorem enorm_zero_vector:
  assumes "\<forall>v\<in>set x. v = Fin 0" and "n = int (length x)"
  shows "\<exists>st'. enorm st n x = Inr (Fin 0, st')"
proof -
  let ?I = "(init n st)\<lparr>ix := 1\<rparr>"
  have "fin_nonneg (x3max ?I)" by (simp add: init_def zero_d_def)
  then have "acc (foldl iter ?I x) = acc ?I"
    using assms(1) foldl_iter_zeros by blast
  then have "calc (foldl iter ?I x) = (Some (Fin 0), foldl iter ?I x)"
    by (simp add: calc_zero)
  then show ?thesis
    using loop_all [OF assms(2), of st] by (simp add: enorm_def)
qed

theorem enorm_zero_vector_witness:
  "(\<exists>st'. enorm boot 0 [] = Inr (Fin 0, st')) \<and>
   (\<exists>st'. enorm boot 3 [Fin 0, Fin 0, Fin 0] = Inr (Fin 0, st'))"
  using enorm_zero_vector [of "[]" 0 boot]
    enorm_zero_vector [of "[Fin 0, Fin 0, Fin 0]" 3 boot]
  by simp

section \<open>Invariants on every input, and the divisors\<close>

lemma dabs_cases:
  obtains (fin) a where "dabs v = Fin a" "0 \<le> a" | (inf) "dabs v = PInf" | (nan) "dabs v = NaN"
  by (cases v) auto

lemma inv_accE:
  assumes "inv_acc st"
  obtains b m where "s2 st = Fin b" "0 \<le> b" "x3max st = Fin m" "0 \<le> m"
    "s1 st = Fin 0 \<and> x1max st = Fin 0 \<or> x1max st = NaN \<or> dlt (Fin 0) (x1max st)"
  using assms unfolding inv_acc_def by (auto elim!: fin_nonnegE)

lemma iter_inv_acc:
  assumes "inv_acc st"
  shows "inv_acc (iter st v)"
proof -
  from assms obtain b m where st: "s2 st = Fin b" "0 \<le> b" "x3max st = Fin m" "0 \<le> m"
    and x1: "s1 st = Fin 0 \<and> x1max st = Fin 0 \<or> x1max st = NaN \<or> dlt (Fin 0) (x1max st)"
    by (rule inv_accE)
  show ?thesis
  proof (cases v rule: dabs_cases)
    case (fin a)
    show ?thesis
    proof (cases "x1max st")
      case (Fin m1)
      with fin st x1 show ?thesis
        by (auto simp: inv_acc_def iter_def body_def L70_def L30_def L40_def L10_def Let_def
            rdwarf_def zero_d_def one_d_def)
    next
      case PInf
      with fin st x1 show ?thesis
        by (auto simp: inv_acc_def iter_def body_def L70_def L30_def L40_def L10_def Let_def
            rdwarf_def zero_d_def one_d_def dle_def)
    next
      case NInf
      with x1 show ?thesis by simp
    next
      case NaN
      with fin st x1 show ?thesis
        by (auto simp: inv_acc_def iter_def body_def L70_def L30_def L40_def L10_def Let_def
            rdwarf_def zero_d_def one_d_def)
    qed
  next
    case inf
    with st x1 show ?thesis
      by (cases "x1max st")
        (auto simp: inv_acc_def iter_def body_def L70_def L30_def L40_def L10_def Let_def
          rdwarf_def zero_d_def one_d_def dle_def dgt_def deq_def)
  next
    case nan
    with st x1 show ?thesis
      by (auto simp: inv_acc_def iter_def body_def L70_def L30_def L40_def L10_def Let_def
          rdwarf_def zero_d_def one_d_def)
  qed
qed

lemma divs_ok_Nil [simp]: "divs_ok []"
  by (simp add: divs_ok_def)

lemma divs_ok_Cons [simp]:
  "divs_ok ((l, d) # ds) = ((dlt (Fin 0) d \<or> (l = At99 \<or> l = At147) \<and> d = NaN) \<and> divs_ok ds)"
  by (simp add: divs_ok_def)

lemma iter_divs_ok:
  assumes "inv_acc st" and "divs_ok (divs st)"
  shows "divs_ok (divs (iter st v))"
proof -
  from assms obtain b m where st: "s2 st = Fin b" "0 \<le> b" "x3max st = Fin m" "0 \<le> m"
    and x1: "s1 st = Fin 0 \<and> x1max st = Fin 0 \<or> x1max st = NaN \<or> dlt (Fin 0) (x1max st)"
    by (elim inv_accE)
  show ?thesis
  proof (cases v rule: dabs_cases)
    case (fin a)
    with st x1 assms(2) show ?thesis
      by (cases "x1max st")
        (auto simp: iter_def body_def L70_def L30_def L40_def L10_def Let_def
          rdwarf_def zero_d_def one_d_def dle_def dgt_def deq_def)
  next
    case inf
    with st x1 assms(2) show ?thesis
      by (cases "x1max st")
        (auto simp: iter_def body_def L70_def L30_def L40_def L10_def Let_def
          rdwarf_def zero_d_def one_d_def dle_def dgt_def deq_def)
  next
    case nan
    with st x1 assms(2) show ?thesis
      by (auto simp: iter_def body_def L70_def L30_def L40_def L10_def Let_def
          rdwarf_def zero_d_def one_d_def)
  qed
qed

lemma foldl_iter_inv:
  "inv_acc st \<Longrightarrow> divs_ok (divs st) \<Longrightarrow>
   inv_acc (foldl iter st xs) \<and> divs_ok (divs (foldl iter st xs))"
  by (induction xs arbitrary: st) (simp_all add: iter_inv_acc iter_divs_ok)

lemma foldl_iter_inv_acc: "inv_acc st \<Longrightarrow> inv_acc (foldl iter st xs)"
  by (induction xs arbitrary: st) (simp_all add: iter_inv_acc)

lemma inv_acc_init: "inv_acc ((init n st)\<lparr>ix := i\<rparr>)"
  by (simp add: inv_acc_def init_def zero_d_def)

lemma divs_ok_init: "1 \<le> n \<Longrightarrow> divs_ok (divs ((init n st)\<lparr>ix := i\<rparr>))"
  by (simp add: init_def)

text \<open>After the pass exactly one of the tests of lines 153 and 156 holds, so a value is returned.\<close>

lemma calc_inv_acc:
  assumes "inv_acc st"
  shows "\<exists>r st'. calc st = (Some r, st') \<and> (divs_ok (divs st) \<longrightarrow> divs_ok (divs st'))"
proof -
  from assms obtain b m where st: "s2 st = Fin b" "0 \<le> b" "x3max st = Fin m" "0 \<le> m"
    and x1: "s1 st = Fin 0 \<and> x1max st = Fin 0 \<or> x1max st = NaN \<or> dlt (Fin 0) (x1max st)"
    by (elim inv_accE)
  show ?thesis
    using st x1 by (cases "s1 st") (auto simp: calc_def zero_d_def deq_def)
qed

text \<open>Without a NaN in the input no divisor is a NaN.\<close>

lemma iter_no_NaN:
  assumes "inv_acc st" and "v \<noteq> NaN" and "x1max st \<noteq> NaN"
    and "\<forall>(l, d)\<in>set (divs st). d \<noteq> NaN"
  shows "x1max (iter st v) \<noteq> NaN \<and> (\<forall>(l, d)\<in>set (divs (iter st v)). d \<noteq> NaN)"
proof -
  from assms(1) obtain b m where st: "s2 st = Fin b" "0 \<le> b" "x3max st = Fin m" "0 \<le> m"
    by (elim inv_accE)
  from assms(2) have "dabs v \<noteq> NaN" by (cases v) auto
  with st assms(3,4) show ?thesis
    by (auto simp: iter_def body_def L70_def L30_def L40_def L10_def Let_def)
qed

lemma foldl_iter_no_NaN:
  "inv_acc st \<Longrightarrow> \<forall>v\<in>set xs. v \<noteq> NaN \<Longrightarrow> x1max st \<noteq> NaN \<Longrightarrow>
   \<forall>(l, d)\<in>set (divs st). d \<noteq> NaN \<Longrightarrow>
   x1max (foldl iter st xs) \<noteq> NaN \<and> (\<forall>(l, d)\<in>set (divs (foldl iter st xs)). d \<noteq> NaN)"
proof (induction xs arbitrary: st)
  case Nil
  then show ?case by simp
next
  case (Cons v xs)
  have "x1max (iter st v) \<noteq> NaN \<and> (\<forall>(l, d)\<in>set (divs (iter st v)). d \<noteq> NaN)"
    using Cons.prems by (intro iter_no_NaN) simp_all
  moreover have "inv_acc (iter st v)" using Cons.prems by (simp add: iter_inv_acc)
  ultimately show ?case using Cons.prems Cons.IH [of "iter st v"] by simp
qed

lemma calc_no_NaN:
  assumes "inv_acc st" and "x1max st \<noteq> NaN" and "\<forall>(l, d)\<in>set (divs st). d \<noteq> NaN"
    and "calc st = (r, st')"
  shows "\<forall>(l, d)\<in>set (divs st'). d \<noteq> NaN"
proof -
  from assms(1) obtain b m where st: "s2 st = Fin b" "0 \<le> b" "x3max st = Fin m" "0 \<le> m"
    by (elim inv_accE)
  with assms(2,3,4) show ?thesis
    by (auto simp: calc_def split: if_splits)
qed

lemma divs_ok_set:
  "divs_ok ds = (\<forall>(l, d)\<in>set ds. dlt (Fin 0) d \<or> (l = At99 \<or> l = At147) \<and> d = NaN)"
  by (simp add: divs_ok_def list_all_iff)

text \<open>
  Claim C3, amended. For \<open>n \<ge> 1\<close> and a vector of length \<open>n\<close> the routine returns, and
  no division it executed had a zero divisor: \<open>x3max > 0\<close> on line 124, \<open>x1max > 0\<close> on
  line 105, \<open>s2 > 0\<close> on line 154 and \<open>x3max > 0\<close> on line 157, on every input (and
  \<open>n > 0\<close> on line 82, \<open>xabs > 0\<close> on line 117); the divisors \<open>xabs\<close> on line 99 and
  \<open>x1max\<close> on line 147 are positive or NaN, and they are positive on an input
  without NaN. (As stated, with \<open>x1max > 0\<close> in the combine step whenever \<open>s1 \<noteq> 0\<close>,
  the claim fails on \<open>[NaN]\<close>: there \<open>s1\<close> and \<open>x1max\<close> are NaN, and \<open>NaN > 0\<close> is false.)
\<close>

theorem no_zero_divisor:
  assumes "1 \<le> n" and "n = int (length x)"
  shows "\<exists>r st'. enorm st n x = Inr (r, st') \<and>
           (\<forall>(l, d)\<in>set (divs st').
              d \<noteq> Fin 0 \<and> (dlt (Fin 0) d \<or> (l = At99 \<or> l = At147) \<and> d = NaN)) \<and>
           ((\<forall>v\<in>set x. v \<noteq> NaN) \<longrightarrow> (\<forall>(l, d)\<in>set (divs st'). dlt (Fin 0) d))"
proof -
  let ?I = "(init n st)\<lparr>ix := 1\<rparr>"
  let ?F = "foldl iter ?I x"
  have loop: "loop n x ?I = Inr ?F" using assms(2) by (rule loop_all)
  have inv: "inv_acc ?F" and ok: "divs_ok (divs ?F)"
    using foldl_iter_inv [OF inv_acc_init divs_ok_init [OF assms(1)]] by blast+
  from calc_inv_acc [OF inv] ok obtain r st' where
    c: "calc ?F = (Some r, st')" and ok': "divs_ok (divs st')" by blast
  have run: "enorm st n x = Inr (r, st')"
    by (simp add: enorm_def loop c)
  have pos: "\<forall>(l, d)\<in>set (divs st'). dlt (Fin 0) d \<or> (l = At99 \<or> l = At147) \<and> d = NaN"
    using ok' by (simp add: divs_ok_set)
  have nz: "\<forall>(l, d)\<in>set (divs st'). d \<noteq> Fin 0"
    using pos by auto
  have nn: "\<forall>(l, d)\<in>set (divs st'). d \<noteq> NaN" if "\<forall>v\<in>set x. v \<noteq> NaN"
  proof -
    have "x1max ?F \<noteq> NaN \<and> (\<forall>(l, d)\<in>set (divs ?F). d \<noteq> NaN)"
      using that by (intro foldl_iter_no_NaN inv_acc_init) (simp_all add: init_def zero_d_def)
    then show ?thesis using calc_no_NaN [OF inv _ _ c] by blast
  qed
  show ?thesis
    using run pos nz nn by (intro exI [of _ r] exI [of _ st']) fastforce
qed

theorem no_zero_divisor_witness:
  "\<exists>r st'. enorm boot 2 [Fin 3, Fin 4] = Inr (r, st') \<and>
           (\<forall>(l, d)\<in>set (divs st'). d \<noteq> Fin 0 \<and> dlt (Fin 0) d)"
proof -
  have h1: "(1::int) \<le> 2" and h2: "(2::int) = int (length [Fin 3, Fin 4])" by simp_all
  have h3: "\<forall>v\<in>set [Fin 3, Fin 4]. v \<noteq> NaN" by simp
  from no_zero_divisor [OF h1 h2, of boot] h3 show ?thesis by blast
qed

theorem no_zero_divisor_counterexample:
  "enorm boot 1 [NaN] =
     Inr (NaN, \<lparr>s1 = NaN, s2 = Fin 0, s3 = Fin 0, xabs = NaN, x1max = NaN, x3max = Fin 0,
                  agiant = Fin 13040000000000000000, floatn = Fin 1, ix = 2,
                  divs = [(At147, NaN), (At147, NaN), (At99, NaN), (At82, Fin 1)]\<rparr>) \<and>
   dne NaN zero_d \<and> \<not> dgt NaN zero_d"
  by (simp add: enorm_def init_def boot_def iter_def body_def L70_def L30_def L40_def L10_def
      calc_def rdwarf_def rgiant_def zero_d_def one_d_def Let_def rd_def loop.simps dne_def)

section \<open>Concrete runs\<close>

lemma rd_simps [simp]:
  "rd (v # vs) 1 = Some v"
  "rd (v # w # vs) 2 = Some w"
  by (simp_all add: rd_def)

lemmas run_defs =
  enorm_def init_def boot_def iter_def body_def L70_def L30_def L40_def L10_def
  calc_def ret154_def ret157_def rdwarf_def rgiant_def zero_d_def one_d_def Let_def


section \<open>The combination of the buckets\<close>

lemma calc_combine_spec:
  assumes "inv_acc st"
  shows "fst (calc st) = Some (combine_spec st)"
proof -
  from assms obtain b m where st: "s2 st = Fin b" "0 \<le> b" "x3max st = Fin m" "0 \<le> m"
    by (elim inv_accE)
  then show ?thesis
    by (auto simp: calc_def combine_spec_def ret154_def ret157_def dne_def)
qed

text \<open>
  Claim C4. On a vector of length \<open>n\<close> the value returned is the combination of
  the accumulators left by the pass as step 4 of the specification words it: the
  large-bucket formula if \<open>s1 \<noteq> 0\<close>, else one of the two \<open>s2\<close> formulas chosen by
  comparing \<open>s2\<close> with \<open>x3max\<close> if \<open>s2 \<noteq> 0\<close>, else \<open>x3max * sqrt(s3)\<close>; on a vector
  of zeros \<open>x3max\<close> is \<open>0\<close> and the value is \<open>0.0\<close>.
\<close>

theorem combine_as_specified:
  assumes "n = int (length x)"
  shows "\<exists>st1 st'. loop n x ((init n st)\<lparr>ix := 1\<rparr>) = Inr st1 \<and>
           enorm st n x = Inr (combine_spec st1, st') \<and>
           ((\<forall>v\<in>set x. v = Fin 0) \<longrightarrow> x3max st1 = Fin 0 \<and> combine_spec st1 = Fin 0)"
proof -
  let ?I = "(init n st)\<lparr>ix := 1\<rparr>"
  let ?F = "foldl iter ?I x"
  have loop: "loop n x ?I = Inr ?F" using assms by (rule loop_all)
  have inv: "inv_acc ?F" by (intro foldl_iter_inv_acc inv_acc_init)
  obtain st' where c: "calc ?F = (Some (combine_spec ?F), st')"
    using calc_combine_spec [OF inv] by (cases "calc ?F") simp
  have run: "enorm st n x = Inr (combine_spec ?F, st')"
    by (simp add: enorm_def loop c)
  have z: "x3max ?F = Fin 0 \<and> combine_spec ?F = Fin 0" if "\<forall>v\<in>set x. v = Fin 0"
  proof -
    have "fin_nonneg (x3max ?I)" by (simp add: init_def zero_d_def)
    then have "acc ?F = acc ?I" using that foldl_iter_zeros by blast
    then have a: "acc ?F = (Fin 0, Fin 0, Fin 0, Fin 0, Fin 0)" by simp
    then show ?thesis
      by (simp add: acc_def combine_spec_def zero_d_def)
  qed
  show ?thesis using loop run z by blast
qed

theorem combine_as_specified_witness:
  "\<exists>st1 st'. loop 2 [Fin 0, Fin 0] ((init 2 boot)\<lparr>ix := 1\<rparr>) = Inr st1 \<and>
           enorm boot 2 [Fin 0, Fin 0] = Inr (combine_spec st1, st') \<and>
           x3max st1 = Fin 0 \<and> combine_spec st1 = Fin 0"
proof -
  have h1: "(2::int) = int (length [Fin 0, Fin 0])" by simp
  have h2: "\<forall>v\<in>set [Fin 0, Fin 0]. v = Fin 0" by simp
  from combine_as_specified [OF h1, of boot] h2 show ?thesis by blast
qed

text \<open>
  Claim C6. With \<open>s2 > 0\<close> and \<open>x3max > 0\<close> the formulas of lines 154 and 157 are
  the square root of the same number \<open>s2 + x3max\<^sup>2 * s3\<close> in exact arithmetic, so the
  comparison of \<open>s2\<close> with \<open>x3max\<close> chooses between two forms of one value.
\<close>

theorem combine_formulas_agree:
  assumes "s2 st = Fin a" and "x3max st = Fin b" and "s3 st = Fin c"
    and "0 < a" and "0 < b"
  shows "ret154 st = dsqrt (Fin (a + b\<^sup>2 * c)) \<and> ret157 st = dsqrt (Fin (a + b\<^sup>2 * c)) \<and>
         (0 \<le> c \<longrightarrow> ret154 st = Fin (sqrt (a + b\<^sup>2 * c)))"
proof -
  have e1: "a * (1 + b / a * (b * c)) = a + b\<^sup>2 * c"
    using assms(4) by (simp add: field_simps power2_eq_square)
  have e2: "b * (a / b + b * c) = a + b\<^sup>2 * c"
    using assms(5) by (simp add: field_simps power2_eq_square)
  have nn: "\<not> a + b\<^sup>2 * c < 0" if "0 \<le> c"
    using that assms(4) by (simp add: add_nonneg_nonneg not_less less_imp_le)
  have "ret154 st = dsqrt (Fin (a * (1 + b / a * (b * c))))"
    using assms by (simp add: ret154_def one_d_def)
  then have r1: "ret154 st = dsqrt (Fin (a + b\<^sup>2 * c))"
    by (simp only: e1)
  have "ret157 st = dsqrt (Fin (b * (a / b + b * c)))"
    using assms by (simp add: ret157_def)
  then have r2: "ret157 st = dsqrt (Fin (a + b\<^sup>2 * c))"
    by (simp only: e2)
  show ?thesis using r1 r2 nn by simp
qed

theorem combine_formulas_agree_witness:
  "ret154 (boot\<lparr>s2 := Fin 16, x3max := Fin 3, s3 := Fin 1\<rparr>) = Fin 5 \<and>
   ret157 (boot\<lparr>s2 := Fin 16, x3max := Fin 3, s3 := Fin 1\<rparr>) = Fin 5"
  using combine_formulas_agree [of "boot\<lparr>s2 := Fin 16, x3max := Fin 3, s3 := Fin 1\<rparr>" 16 3 1]
  by simp

section \<open>The static variables between calls\<close>

text \<open>
  Every static variable is assigned before it is read: lines 76 to 84 assign all of
  them but \<open>xabs\<close>, and line 85 assigns \<open>xabs\<close> at the start of each iteration.
\<close>

lemma init_any:
  "(init n st)\<lparr>ix := 1\<rparr> = (init n st')\<lparr>ix := 1, xabs := xabs st\<rparr>"
  by (cases st, cases st') (simp add: init_def)

lemma iter_xabs: "iter (st\<lparr>xabs := a\<rparr>) v = iter st v"
  by (simp add: iter_def)

lemma loop_xabs:
  "loop n x (st\<lparr>xabs := a\<rparr>) = (if ix st \<le> n then loop n x st else Inr (st\<lparr>xabs := a\<rparr>))"
  by (subst loop.simps, subst (2) loop.simps) (simp add: iter_xabs split: option.splits)

lemma calc_xabs: "calc (st\<lparr>xabs := a\<rparr>) = (fst (calc st), (snd (calc st))\<lparr>xabs := a\<rparr>)"
  by (simp add: calc_def ret154_def ret157_def)

lemma loop_ix_gt: "n < ix st \<Longrightarrow> loop n x st = Inr st"
  by (subst loop.simps) simp

lemma enorm_any_statics:
  "map_sum id fst (enorm st n x) = map_sum id fst (enorm st' n x)"
proof -
  let ?I = "(init n st')\<lparr>ix := 1\<rparr>"
  have I: "(init n st)\<lparr>ix := 1\<rparr> = ?I\<lparr>xabs := xabs st\<rparr>"
    by (simp add: init_any [of n st st'])
  show ?thesis
  proof (cases "ix ?I \<le> n")
    case True
    then have "loop n x (?I\<lparr>xabs := xabs st\<rparr>) = loop n x ?I"
      by (simp add: loop_xabs)
    then show ?thesis by (simp add: enorm_def I)
  next
    case False
    then have "loop n x (?I\<lparr>xabs := xabs st\<rparr>) = Inr (?I\<lparr>xabs := xabs st\<rparr>)"
      and "loop n x ?I = Inr ?I"
      by (simp_all add: loop_ix_gt)
    then show ?thesis
      by (simp add: enorm_def I calc_xabs split: prod.splits option.splits)
  qed
qed

section \<open>Inputs without NaN and with at most one infinite element\<close>

lemma is_fin_simps [simp]:
  "is_fin (Fin a)" "\<not> is_fin PInf" "\<not> is_fin NInf" "\<not> is_fin NaN"
  by (simp_all add: is_fin_def)

lemma inv_okE:
  assumes "inv_ok st"
  obtains a b c m where "s1 st = Fin a" "0 \<le> a" "s2 st = Fin b" "0 \<le> b"
    "s3 st = Fin c" "0 \<le> c" "x3max st = Fin m" "0 \<le> m"
    "x1max st = PInf \<and> a \<noteq> 0 \<or> (\<exists>m1. x1max st = Fin m1 \<and> 0 \<le> m1 \<and> (a = 0 \<or> m1 \<noteq> 0))"
  using assms unfolding inv_ok_def by (auto elim!: fin_nonnegE)

lemmas iter_defs = iter_def body_def L70_def L30_def L40_def L10_def Let_def
  rdwarf_def zero_d_def one_d_def

lemma iter_inv_ok_fin:
  assumes "inv_ok st" and "is_fin v"
  shows "inv_ok (iter st v) \<and> (x1max (iter st v) = PInf \<longleftrightarrow> x1max st = PInf) \<and>
         dle (x1max st) (x1max (iter st v)) \<and> dle (x3max st) (x3max (iter st v))"
proof -
  from assms(1) obtain a b c m where st: "s1 st = Fin a" "0 \<le> a" "s2 st = Fin b" "0 \<le> b"
    "s3 st = Fin c" "0 \<le> c" "x3max st = Fin m" "0 \<le> m"
    and x1: "x1max st = PInf \<and> a \<noteq> 0 \<or> (\<exists>m1. x1max st = Fin m1 \<and> 0 \<le> m1 \<and> (a = 0 \<or> m1 \<noteq> 0))"
    by (rule inv_okE)
  from assms(2) obtain r where v: "v = Fin r" by (cases v) auto
  from x1 show ?thesis
  proof
    assume "x1max st = PInf \<and> a \<noteq> 0"
    with st v show ?thesis
      by (auto simp: inv_ok_def iter_defs dle_def deq_def)
  next
    assume "\<exists>m1. x1max st = Fin m1 \<and> 0 \<le> m1 \<and> (a = 0 \<or> m1 \<noteq> 0)"
    then obtain m1 where "x1max st = Fin m1" "0 \<le> m1" "a = 0 \<or> m1 \<noteq> 0" by blast
    with st v show ?thesis
      by (auto simp: inv_ok_def iter_defs)
  qed
qed


lemma iter_inv_ok_inf:
  assumes "inv_ok st" and "x1max st \<noteq> PInf" and "v = PInf \<or> v = NInf"
  shows "inv_ok (iter st v) \<and> x1max (iter st v) = PInf \<and>
         dle (x1max st) (x1max (iter st v)) \<and> dle (x3max st) (x3max (iter st v))"
proof -
  from assms(1) obtain a b c m where st: "s1 st = Fin a" "0 \<le> a" "s2 st = Fin b" "0 \<le> b"
    "s3 st = Fin c" "0 \<le> c" "x3max st = Fin m" "0 \<le> m"
    and x1: "x1max st = PInf \<and> a \<noteq> 0 \<or> (\<exists>m1. x1max st = Fin m1 \<and> 0 \<le> m1 \<and> (a = 0 \<or> m1 \<noteq> 0))"
    by (rule inv_okE)
  from x1 assms(2) obtain m1 where "x1max st = Fin m1" "0 \<le> m1" by blast
  moreover from assms(3) have "dabs v = PInf" by auto
  ultimately show ?thesis using st
    by (auto simp: inv_ok_def iter_defs dle_def dgt_def deq_def)
qed

lemma nonneg_fin_nonneg: "fin_nonneg a \<Longrightarrow> nonneg a"
  by (cases a) (simp_all add: nonneg_def zero_d_def)

lemma inv_ok_nonneg:
  "inv_ok st \<Longrightarrow>
   nonneg (s1 st) \<and> nonneg (s2 st) \<and> nonneg (s3 st) \<and> nonneg (x1max st) \<and> nonneg (x3max st)"
  by (auto simp: inv_ok_def nonneg_fin_nonneg) (simp add: nonneg_def dge_def dle_def zero_d_def)

text \<open>One iteration on an input that is as it should be.\<close>

lemma good_iter:
  assumes "good st (v # rest)"
  shows "good (iter st v) rest \<and>
         dle (x1max st) (x1max (iter st v)) \<and> dle (x3max st) (x3max (iter st v))"
proof (cases "is_fin v")
  case True
  with assms iter_inv_ok_fin [of st v] show ?thesis
    by (simp add: good_def)
next
  case False
  with assms have v: "v = PInf \<or> v = NInf" and x1: "x1max st \<noteq> PInf"
    and rest: "filter (\<lambda>v. \<not> is_fin v) rest = []"
    by (cases v; auto simp: good_def)+
  from rest have "list_all is_fin rest"
    by (simp add: filter_empty_conv list_all_iff)
  moreover from assms have inv: "inv_ok st" and "list_all (\<lambda>v. v \<noteq> NaN) rest"
    by (simp_all add: good_def)
  moreover have "length (filter (\<lambda>v. \<not> is_fin v) rest) \<le> 1"
    using rest by simp
  moreover have "inv_ok (iter st v)" and "dle (x1max st) (x1max (iter st v))"
    and "dle (x3max st) (x3max (iter st v))"
    using iter_inv_ok_inf [OF inv x1 v] by blast+
  ultimately show ?thesis
    unfolding good_def by blast
qed

lemma good_foldl: "good st (xs @ rest) \<Longrightarrow> good (foldl iter st xs) rest"
  by (induction xs arbitrary: st) (simp_all add: good_iter)

lemma good_init: "tame x \<Longrightarrow> good ((init n st)\<lparr>ix := i\<rparr>) x"
  by (simp add: good_def tame_def inv_ok_def init_def zero_d_def)

text \<open>The value returned from such a state is not negative and not a NaN.\<close>

lemma ret154_eq:
  assumes "s2 st = Fin a" and "x3max st = Fin b" and "s3 st = Fin c" and "a \<noteq> 0"
  shows "ret154 st = dsqrt (Fin (a + b\<^sup>2 * c))"
proof -
  have e: "a * (1 + b / a * (b * c)) = a + b\<^sup>2 * c"
    using assms(4) by (simp add: field_simps power2_eq_square)
  have "ret154 st = dsqrt (Fin (a * (1 + b / a * (b * c))))"
    using assms by (simp add: ret154_def one_d_def)
  then show ?thesis by (simp only: e)
qed

lemma ret157_eq:
  assumes "s2 st = Fin a" and "x3max st = Fin b" and "s3 st = Fin c" and "b \<noteq> 0"
  shows "ret157 st = dsqrt (Fin (a + b\<^sup>2 * c))"
proof -
  have e: "b * (a / b + b * c) = a + b\<^sup>2 * c"
    using assms(4) by (simp add: field_simps power2_eq_square)
  have "ret157 st = dsqrt (Fin (b * (a / b + b * c)))"
    using assms by (simp add: ret157_def)
  then show ?thesis by (simp only: e)
qed

lemma dsqrt_nonneg: "0 \<le> r \<Longrightarrow> nonneg (dsqrt (Fin r))"
  by (simp add: nonneg_def zero_d_def not_less)

lemma calc_inv_ok:
  assumes "inv_ok st"
  shows "\<exists>r st'. calc st = (Some r, st') \<and> nonneg r"
proof -
  from assms obtain a b c m where st: "s1 st = Fin a" "0 \<le> a" "s2 st = Fin b" "0 \<le> b"
    "s3 st = Fin c" "0 \<le> c" "x3max st = Fin m" "0 \<le> m"
    and x1: "x1max st = PInf \<and> a \<noteq> 0 \<or> (\<exists>m1. x1max st = Fin m1 \<and> 0 \<le> m1 \<and> (a = 0 \<or> m1 \<noteq> 0))"
    by (rule inv_okE)
  have sum: "0 \<le> b + m\<^sup>2 * c" using st by simp
  consider (large_inf) "a \<noteq> 0" "x1max st = PInf"
    | (large) m1 where "a \<noteq> 0" "x1max st = Fin m1" "0 < m1"
    | (small) "a = 0" "b = 0"
    | (mid_ge) "a = 0" "b \<noteq> 0" "m \<le> b"
    | (mid_lt) "a = 0" "b \<noteq> 0" "b < m"
    using x1 by (cases "a = 0"; cases "b = 0"; cases "m \<le> b") auto
  then show ?thesis
  proof cases
    case large_inf
    with st show ?thesis
      by (simp add: calc_def nonneg_def zero_d_def dge_def dle_def)
  next
    case large
    have "0 \<le> a + b / m1 / m1" using st large by simp
    with st large show ?thesis
      by (simp add: calc_def nonneg_def zero_d_def not_less)
  next
    case small
    with st show ?thesis
      by (simp add: calc_def nonneg_def zero_d_def not_less)
  next
    case mid_ge
    have "nonneg (ret154 st)"
      unfolding ret154_eq [OF st(3) st(7) st(5) mid_ge(2)] by (rule dsqrt_nonneg [OF sum])
    with st mid_ge show ?thesis
      by (simp add: calc_def zero_d_def)
  next
    case mid_lt
    then have m: "m \<noteq> 0" using st by auto
    have "nonneg (ret157 st)"
      unfolding ret157_eq [OF st(3) st(7) st(5) m] by (rule dsqrt_nonneg [OF sum])
    with st mid_lt show ?thesis
      by (simp add: calc_def zero_d_def)
  qed
qed

section \<open>The sign of the result and of the accumulators\<close>

lemmas run_defs' = run_defs nonneg_def dge_def dle_def deq_def dgt_def

text \<open>
  A NaN element makes the result NaN, and so do two infinite elements (the second
  one divides \<open>\<infinity>\<close> by \<open>\<infinity>\<close> on line 105); one infinite element gives \<open>+\<infinity>\<close>.
\<close>

lemma enorm_NaN: "map_sum id fst (enorm boot 1 [NaN]) = Inr NaN"
  by (simp add: run_defs loop.simps)

lemma enorm_PInf: "map_sum id fst (enorm boot 1 [PInf]) = Inr PInf"
  by (simp add: run_defs' loop.simps)

lemma enorm_PInf_PInf: "map_sum id fst (enorm boot 2 [PInf, PInf]) = Inr NaN"
  by (simp add: run_defs' loop.simps)

text \<open>
  Claim C8, amended. For every \<open>n \<ge> 0\<close> and every vector of length \<open>n\<close> without
  NaN and with at most one infinite element, the routine returns a value \<open>r\<close> with
  \<open>r >= 0\<close>. (As stated, for all vectors, the claim fails: on \<open>[NaN]\<close> the result is
  NaN, and \<open>NaN >= 0\<close> is false.)
\<close>

theorem enorm_nonneg:
  assumes "tame x" and "n = int (length x)"
  shows "\<exists>r st'. enorm st n x = Inr (r, st') \<and> dge r zero_d"
proof -
  let ?I = "(init n st)\<lparr>ix := 1\<rparr>"
  have "good ?I (x @ [])" using assms(1) by (simp add: good_init)
  then have "good (foldl iter ?I x) []" by (rule good_foldl)
  then have "inv_ok (foldl iter ?I x)" by (simp add: good_def)
  then obtain r st' where "calc (foldl iter ?I x) = (Some r, st')" and "nonneg r"
    using calc_inv_ok by blast
  then show ?thesis
    using loop_all [OF assms(2), of st] by (simp add: enorm_def nonneg_def)
qed

theorem enorm_nonneg_witness:
  "\<exists>r st'. enorm boot 3 [Fin (-2), NInf, Fin 0] = Inr (r, st') \<and> dge r zero_d"
proof -
  have "tame [Fin (-2), NInf, Fin 0]" by (simp add: tame_def)
  moreover have "(3::int) = int (length [Fin (-2), NInf, Fin 0])" by simp
  ultimately show ?thesis by (rule enorm_nonneg)
qed

theorem enorm_nonneg_counterexample:
  "map_sum id fst (enorm boot 1 [NaN]) = Inr NaN \<and> \<not> dge NaN zero_d"
  by (simp add: run_defs loop.simps)

text \<open>On every input: the sum and the pivot of the small bucket.\<close>

lemma iter_small:
  assumes "fin_nonneg (s3 st)" and "fin_nonneg (x3max st)"
  shows "fin_nonneg (s3 (iter st v)) \<and> fin_nonneg (x3max (iter st v)) \<and>
         dle (x3max st) (x3max (iter st v))"
proof -
  from assms obtain c m where st: "s3 st = Fin c" "0 \<le> c" "x3max st = Fin m" "0 \<le> m"
    by (auto elim!: fin_nonnegE)
  show ?thesis
  proof (cases v rule: dabs_cases)
    case (fin a)
    with st show ?thesis by (auto simp: iter_defs)
  next
    case inf
    with st show ?thesis by (auto simp: iter_defs dle_def dgt_def deq_def)
  next
    case nan
    with st show ?thesis by (auto simp: iter_defs)
  qed
qed

lemma foldl_iter_small:
  "fin_nonneg (s3 st) \<Longrightarrow> fin_nonneg (x3max st) \<Longrightarrow>
   fin_nonneg (s3 (foldl iter st xs)) \<and> fin_nonneg (x3max (foldl iter st xs))"
  by (induction xs arbitrary: st) (simp_all add: iter_small)

text \<open>Without a NaN read: the pivot of the large bucket.\<close>

lemma nonneg_cases:
  assumes "nonneg a"
  obtains (fin) r where "a = Fin r" "0 \<le> r" | (inf) "a = PInf"
  using assms by (cases a) (auto simp: nonneg_def dge_def dle_def deq_def zero_d_def)

lemma x1max_iter:
  "x1max (iter st v) = x1max st \<or>
   x1max (iter st v) = dabs v \<and> \<not> dle (dabs v) (x1max st)"
  by (simp add: iter_def body_def L70_def L30_def L40_def L10_def Let_def)

lemma nonneg_dabs: "v \<noteq> NaN \<Longrightarrow> nonneg (dabs v)"
  by (cases v) (simp_all add: nonneg_def dge_def dle_def zero_d_def)

lemma nonneg_dle_refl: "nonneg a \<Longrightarrow> dle a a"
  by (cases a) (simp_all add: nonneg_def dge_def dle_def deq_def zero_d_def)

lemma nonneg_not_dle: "nonneg a \<Longrightarrow> nonneg b \<Longrightarrow> \<not> dle a b \<Longrightarrow> dle b a"
  by (cases a; cases b) (auto simp: nonneg_def dge_def dle_def deq_def zero_d_def)

lemma iter_x1max:
  assumes "nonneg (x1max st)" and "v \<noteq> NaN"
  shows "nonneg (x1max (iter st v)) \<and> dle (x1max st) (x1max (iter st v))"
proof -
  have d: "nonneg (dabs v)" using assms(2) by (rule nonneg_dabs)
  from x1max_iter [of st v] show ?thesis
  proof
    assume "x1max (iter st v) = x1max st"
    then show ?thesis using assms(1) nonneg_dle_refl by simp
  next
    assume "x1max (iter st v) = dabs v \<and> \<not> dle (dabs v) (x1max st)"
    then show ?thesis using d assms(1) nonneg_not_dle by simp
  qed
qed

lemma foldl_iter_x1max:
  "nonneg (x1max st) \<Longrightarrow> \<forall>v\<in>set xs. v \<noteq> NaN \<Longrightarrow> nonneg (x1max (foldl iter st xs))"
  by (induction xs arbitrary: st) (simp_all add: iter_x1max)

text \<open>
  Two infinite elements make \<open>s1\<close> a NaN and leave \<open>x1max\<close> at \<open>+\<infinity>\<close>.
\<close>

lemma two_infinities:
  "map_sum id (\<lambda>s. (s1 s, x1max s)) (loop 2 [PInf, PInf] ((init 2 boot)\<lparr>ix := 1\<rparr>)) =
     Inr (NaN, PInf)"
  by (simp add: run_defs' loop.simps)

text \<open>
  Claim C7, amended. On every input, no observable state is carried from one
  invocation to the next: the outcome of a call is the same whatever the static
  variables held before. On a vector of length \<open>n\<close>, with \<open>a\<close> the state after \<open>k\<close>
  iterations and \<open>b\<close> the state after \<open>k + 1\<close> (lemma \<open>loop_resume\<close> below shows that
  the full run passes through them): on every input \<open>s2\<close>, \<open>s3\<close> and \<open>x3max\<close> are
  \<open>>= 0\<close> in \<open>a\<close> and in \<open>b\<close> and \<open>x3max\<close> does not decrease from \<open>a\<close> to \<open>b\<close>; if no
  NaN is among the first \<open>k + 1\<close> elements, \<open>x1max\<close> is \<open>>= 0\<close> in \<open>a\<close> and in \<open>b\<close> and does
  not decrease; if moreover at most one of them is infinite, \<open>s1\<close> is \<open>>= 0\<close> in \<open>a\<close>
  and in \<open>b\<close>. (As stated, the claim fails on \<open>[NaN]\<close>: \<open>s1\<close> and \<open>x1max\<close> are NaN after
  the first iteration.)
\<close>

theorem accumulators_invariant:
  "map_sum id fst (enorm st n x) = map_sum id fst (enorm st' n x) \<and>
   (n = int (length x) \<and> k < length x \<longrightarrow>
    (\<exists>a b. loop (int k) x ((init n st)\<lparr>ix := 1\<rparr>) = Inr a \<and>
            loop (int k + 1) x ((init n st)\<lparr>ix := 1\<rparr>) = Inr b \<and>
            nonneg (s2 a) \<and> nonneg (s3 a) \<and> nonneg (x3max a) \<and>
            nonneg (s2 b) \<and> nonneg (s3 b) \<and> nonneg (x3max b) \<and>
            dle (x3max a) (x3max b) \<and>
            (list_all (\<lambda>v. v \<noteq> NaN) (take (Suc k) x) \<longrightarrow>
               nonneg (x1max a) \<and> nonneg (x1max b) \<and> dle (x1max a) (x1max b)) \<and>
            (tame (take (Suc k) x) \<longrightarrow> nonneg (s1 a) \<and> nonneg (s1 b))))"
proof (intro conjI impI)
  show "map_sum id fst (enorm st n x) = map_sum id fst (enorm st' n x)"
    by (rule enorm_any_statics)
next
  assume h: "n = int (length x) \<and> k < length x"
  then have k: "k < length x" by simp
  let ?I = "(init n st)\<lparr>ix := 1\<rparr>"
  let ?p = "take (Suc k) x"
  let ?a = "foldl iter ?I (take k x)"
  let ?b = "foldl iter ?I ?p"
  have la: "loop (int k) x ?I = Inr ?a"
    using k by (intro loop_foldl) simp_all
  have "loop (int (Suc k)) x ?I = Inr ?b"
    using k by (intro loop_foldl) simp_all
  then have lb: "loop (int k + 1) x ?I = Inr ?b"
    by (simp add: add.commute)
  have p: "?p = take k x @ [x ! k]"
    using k by (simp add: take_Suc_conv_app_nth)
  have ba: "?b = iter ?a (x ! k)" by (simp add: p)
  have I3: "fin_nonneg (s3 ?I)" "fin_nonneg (x3max ?I)" and I1: "nonneg (x1max ?I)"
    by (simp_all add: init_def zero_d_def nonneg_def)
  have "inv_acc ?a" and "inv_acc ?b"
    by (intro foldl_iter_inv_acc inv_acc_init)+
  then have s2: "nonneg (s2 ?a)" "nonneg (s2 ?b)"
    by (simp_all add: inv_acc_def nonneg_fin_nonneg)
  have a3: "fin_nonneg (s3 ?a)" "fin_nonneg (x3max ?a)"
    using foldl_iter_small [OF I3] by simp_all
  then have b3: "fin_nonneg (s3 ?b)" "fin_nonneg (x3max ?b)" "dle (x3max ?a) (x3max ?b)"
    using iter_small [of ?a "x ! k"] by (simp_all only: ba)
  have small: "nonneg (s3 ?a)" "nonneg (x3max ?a)" "nonneg (s3 ?b)" "nonneg (x3max ?b)"
    using a3 b3 by (simp_all add: nonneg_fin_nonneg)
  have large: "nonneg (x1max ?a) \<and> nonneg (x1max ?b) \<and> dle (x1max ?a) (x1max ?b)"
    if "list_all (\<lambda>v. v \<noteq> NaN) ?p"
  proof -
    from that have nn: "\<forall>v\<in>set (take k x). v \<noteq> NaN" and xk: "x ! k \<noteq> NaN"
      by (simp_all add: p list_all_iff)
    have "nonneg (x1max ?a)" using I1 nn by (rule foldl_iter_x1max)
    then show ?thesis using iter_x1max [of ?a "x ! k"] xk by (simp only: ba) blast
  qed
  have sum1: "nonneg (s1 ?a) \<and> nonneg (s1 ?b)" if "tame ?p"
  proof -
    have "good ?I (take k x @ [x ! k])" using that by (simp add: good_init p [symmetric])
    then have ga: "good ?a [x ! k]" by (rule good_foldl)
    then have "good ?b []" using good_iter [OF ga] by (simp only: ba)
    then have "inv_ok ?a" and "inv_ok ?b" using ga by (simp_all add: good_def)
    then show ?thesis using inv_ok_nonneg by blast
  qed
  show "\<exists>a b. loop (int k) x ?I = Inr a \<and> loop (int k + 1) x ?I = Inr b \<and>
            nonneg (s2 a) \<and> nonneg (s3 a) \<and> nonneg (x3max a) \<and>
            nonneg (s2 b) \<and> nonneg (s3 b) \<and> nonneg (x3max b) \<and>
            dle (x3max a) (x3max b) \<and>
            (list_all (\<lambda>v. v \<noteq> NaN) (take (Suc k) x) \<longrightarrow>
               nonneg (x1max a) \<and> nonneg (x1max b) \<and> dle (x1max a) (x1max b)) \<and>
            (tame (take (Suc k) x) \<longrightarrow> nonneg (s1 a) \<and> nonneg (s1 b))"
    using la lb s2 small b3(3) large sum1 by blast
qed

theorem accumulators_invariant_witness:
  "map_sum id fst (enorm boot 3 [Fin 1, PInf, Fin 2]) =
     map_sum id fst (enorm (boot\<lparr>s1 := NaN\<rparr>) 3 [Fin 1, PInf, Fin 2]) \<and>
   (\<exists>a b. loop 1 [Fin 1, PInf, Fin 2] ((init 3 boot)\<lparr>ix := 1\<rparr>) = Inr a \<and>
          loop 2 [Fin 1, PInf, Fin 2] ((init 3 boot)\<lparr>ix := 1\<rparr>) = Inr b \<and>
          nonneg (s1 a) \<and> nonneg (s2 a) \<and> nonneg (s3 a) \<and> nonneg (x1max a) \<and> nonneg (x3max a) \<and>
          nonneg (s1 b) \<and> nonneg (s2 b) \<and> nonneg (s3 b) \<and> nonneg (x1max b) \<and> nonneg (x3max b) \<and>
          dle (x1max a) (x1max b) \<and> dle (x3max a) (x3max b))"
proof -
  have h1: "(3::int) = int (length [Fin 1, PInf, Fin 2]) \<and> (1::nat) < length [Fin 1, PInf, Fin 2]"
    by simp
  have h2: "list_all (\<lambda>v. v \<noteq> NaN) (take (Suc 1) [Fin 1, PInf, Fin 2])"
    and h3: "tame (take (Suc 1) [Fin 1, PInf, Fin 2])"
    by (simp_all add: tame_def)
  have i: "int 1 = 1" "(1::int) + 1 = 2" by simp_all
  note t = accumulators_invariant [of boot 3 "[Fin 1, PInf, Fin 2]" "boot\<lparr>s1 := NaN\<rparr>" 1]
  from t [unfolded i] h1 h2 h3 show ?thesis by blast
qed

theorem accumulators_invariant_counterexample:
  "map_sum id s1 (loop 1 [NaN] ((init 1 boot)\<lparr>ix := 1\<rparr>)) = Inr NaN \<and> \<not> nonneg NaN"
  by (simp add: run_defs nonneg_def loop.simps)

section \<open>A single nonzero element\<close>

lemma fst_calc_acc: "acc st = acc st' \<Longrightarrow> fst (calc st) = fst (calc st')"
  by (simp add: acc_def calc_def ret154_def ret157_def)

lemma single_step:
  assumes "acc st = (Fin 0, Fin 0, Fin 0, Fin 0, Fin 0)" and "v \<noteq> Fin 0"
  shows "fst (calc (iter st v)) = Some (dabs v) \<and> fin_nonneg (x3max (iter st v))"
proof (cases v rule: dabs_cases)
  case (fin a)
  with assms(2) have "0 < a" by (cases v) auto
  with fin assms(1) show ?thesis
    by (auto simp: acc_def iter_defs calc_def ret154_def ret157_def)
next
  case inf
  with assms(1) show ?thesis
    by (auto simp: acc_def iter_defs calc_def ret154_def ret157_def dle_def dgt_def deq_def)
next
  case nan
  with assms(1) show ?thesis
    by (auto simp: acc_def iter_defs calc_def ret154_def ret157_def)
qed

text \<open>
  Claim C9. On a vector of length \<open>n\<close> whose elements are zeros but for one element
  \<open>v\<close>, the routine returns \<open>|v|\<close>: exactly, in exact arithmetic, whichever bucket
  \<open>v\<close> falls into (an infinite \<open>v\<close> gives \<open>+\<infinity>\<close>, a NaN gives NaN).
\<close>

theorem single_nonzero:
  assumes "\<forall>z\<in>set zs. z = Fin 0" and "\<forall>z\<in>set zs'. z = Fin 0" and "v \<noteq> Fin 0"
    and "x = zs @ v # zs'" and "n = int (length x)"
  shows "\<exists>st'. enorm st n x = Inr (dabs v, st')"
proof -
  let ?I = "(init n st)\<lparr>ix := 1\<rparr>"
  let ?A = "foldl iter ?I zs"
  let ?B = "iter ?A v"
  let ?F = "foldl iter ?B zs'"
  have F: "foldl iter ?I x = ?F" by (simp add: assms(4))
  have "fin_nonneg (x3max ?I)" by (simp add: init_def zero_d_def)
  then have "acc ?A = acc ?I" using assms(1) foldl_iter_zeros by blast
  then have A: "acc ?A = (Fin 0, Fin 0, Fin 0, Fin 0, Fin 0)" by simp
  have B: "fst (calc ?B) = Some (dabs v)" and "fin_nonneg (x3max ?B)"
    using single_step [OF A assms(3)] by simp_all
  then have "acc ?F = acc ?B" using assms(2) foldl_iter_zeros by blast
  then have "fst (calc ?F) = fst (calc ?B)" by (rule fst_calc_acc)
  then have "fst (calc ?F) = Some (dabs v)" using B by simp
  then obtain st' where "calc ?F = (Some (dabs v), st')" by (cases "calc ?F") simp
  then show ?thesis
    using loop_all [OF assms(5), of st] by (simp add: enorm_def F)
qed

theorem single_nonzero_witness:
  "\<exists>st'. enorm boot 4 [Fin 0, Fin 0, Fin (-7), Fin 0] = Inr (Fin 7, st')"
proof -
  have h1: "\<forall>z\<in>set [Fin 0, Fin 0]. z = Fin 0" and h2: "\<forall>z\<in>set [Fin 0]. z = Fin 0"
    and h3: "Fin (-7) \<noteq> Fin 0"
    and h4: "[Fin 0, Fin 0, Fin (-7), Fin 0] = [Fin 0, Fin 0] @ Fin (-7) # [Fin 0]"
    and h5: "(4::int) = int (length [Fin 0, Fin 0, Fin (-7), Fin 0])"
    by simp_all
  have "dabs (Fin (-7)) = Fin 7" by simp
  with single_nonzero [OF h1 h2 h3 h4 h5, of boot] show ?thesis by (simp only:)
qed

section \<open>The classification of the elements\<close>

lemmas step_defs = step_by_def bucket_of_def rescale_def accum_def Let_def
  rdwarf_def zero_d_def one_d_def

text \<open>One iteration of the source is one step of the description, with the source's test.\<close>

lemma iter_step:
  assumes "acc s = acc t" and "agiant s = agiant t" and "fin_nonneg (x3max s)"
  shows "acc (iter s v) = acc (step_unless_le t v) \<and> agiant (iter s v) = agiant (step_unless_le t v)"
proof -
  from assms(3) obtain m where m: "x3max s = Fin m" "0 \<le> m" by (rule fin_nonnegE)
  have t: "s1 t = s1 s" "s2 t = s2 s" "s3 t = s3 s" "x1max t = x1max s" "x3max t = Fin m"
    "agiant t = agiant s"
    using assms(1,2) m by (simp_all add: acc_def)
  show ?thesis
  proof (cases v rule: dabs_cases)
    case (fin a)
    with t m show ?thesis
      by (auto simp: acc_def step_unless_le_def step_defs iter_def body_def L70_def L30_def
          L40_def L10_def dgt_def)
  next
    case inf
    with t m show ?thesis
      by (auto simp: acc_def step_unless_le_def step_defs iter_def body_def L70_def L30_def
          L40_def L10_def dgt_def dle_def deq_def)
  next
    case nan
    with t m show ?thesis
      by (auto simp: acc_def step_unless_le_def step_defs iter_def body_def L70_def L30_def
          L40_def L10_def)
  qed
qed

lemma foldl_iter_step:
  "acc s = acc t \<Longrightarrow> agiant s = agiant t \<Longrightarrow> inv_acc s \<Longrightarrow>
   acc (foldl iter s xs) = acc (foldl step_unless_le t xs)"
proof (induction xs arbitrary: s t)
  case Nil
  then show ?case by simp
next
  case (Cons v xs)
  have "fin_nonneg (x3max s)" using Cons.prems(3) by (simp add: inv_acc_def)
  then have "acc (iter s v) = acc (step_unless_le t v)"
    and "agiant (iter s v) = agiant (step_unless_le t v)"
    using iter_step [OF Cons.prems(1,2)] by simp_all
  moreover have "inv_acc (iter s v)" using Cons.prems(3) by (rule iter_inv_acc)
  ultimately show ?case using Cons.IH by simp
qed

text \<open>The two tests differ on a NaN only.\<close>

lemma not_dle_dgt: "a \<noteq> NaN \<Longrightarrow> b \<noteq> NaN \<Longrightarrow> (\<not> dle a b) = dgt a b"
  by (cases a; cases b) (auto simp: dle_def dgt_def deq_def)

lemma step_spec_unless_le:
  assumes "v \<noteq> NaN" and "x1max t \<noteq> NaN"
  shows "step_spec t v = step_unless_le t v \<and> x1max (step_spec t v) \<noteq> NaN"
proof -
  from assms(1) have xa: "dabs v \<noteq> NaN" by (cases v) auto
  then have "(\<not> dle (dabs v) (x1max t)) = dgt (dabs v) (x1max t)"
    using assms(2) by (rule not_dle_dgt)
  then show ?thesis
    using xa assms(2)
    by (simp add: step_spec_def step_unless_le_def step_by_def Let_def split: bucket.splits)
qed

lemma foldl_step_spec:
  "\<forall>v\<in>set xs. v \<noteq> NaN \<Longrightarrow> x1max t \<noteq> NaN \<Longrightarrow>
   foldl step_spec t xs = foldl step_unless_le t xs"
proof (induction xs arbitrary: t)
  case Nil
  then show ?case by simp
next
  case (Cons v xs)
  have "step_spec t v = step_unless_le t v" and "x1max (step_spec t v) \<noteq> NaN"
    using step_spec_unless_le [of v t] Cons.prems by auto
  then show ?case using Cons.prems Cons.IH [of "step_spec t v"] by simp
qed

text \<open>
  Claim C5, amended. In one pass over the indices \<open>1..n\<close> each element, by
  \<open>xabs = |x[i]|\<close>, goes to exactly one bucket: intermediate iff
  \<open>rdwarf < xabs < agiant\<close> (then \<open>s2 += xabs\<^sup>2\<close>); small iff \<open>xabs <= rdwarf\<close> (then
  rescale \<open>s3\<close> and set \<open>x3max\<close> when \<open>xabs > x3max\<close>, else add \<open>(xabs/x3max)\<^sup>2\<close> to \<open>s3\<close>
  only when \<open>xabs \<noteq> 0\<close>); otherwise large, where \<open>s1 += (xabs/x1max)\<^sup>2\<close> when
  \<open>xabs <= x1max\<close>, and else \<open>s1\<close> is rescaled and \<open>x1max\<close> set. On a vector without NaN
  that is the claim as stated, with the rescaling "when \<open>xabs > x1max\<close>". (As stated
  the claim fails on \<open>[NaN]\<close>: the NaN is rescaled to, and \<open>x1max\<close> becomes NaN, though
  \<open>NaN > x1max\<close> is false.)
\<close>

theorem classification:
  assumes "n = int (length x)"
  shows "\<exists>st'. loop n x ((init n st)\<lparr>ix := 1\<rparr>) = Inr st' \<and>
           acc st' = acc (foldl step_unless_le (init n st) x) \<and>
           ((\<forall>v\<in>set x. v \<noteq> NaN) \<longrightarrow> acc st' = acc (foldl step_spec (init n st) x))"
proof -
  let ?I = "(init n st)\<lparr>ix := 1\<rparr>"
  have loop: "loop n x ?I = Inr (foldl iter ?I x)" using assms by (rule loop_all)
  have "acc ?I = acc (init n st)" and "agiant ?I = agiant (init n st)"
    by (simp_all add: acc_def)
  then have a: "acc (foldl iter ?I x) = acc (foldl step_unless_le (init n st) x)"
    using inv_acc_init by (rule foldl_iter_step)
  have "foldl step_spec (init n st) x = foldl step_unless_le (init n st) x"
    if "\<forall>v\<in>set x. v \<noteq> NaN"
    using that by (rule foldl_step_spec) (simp add: init_def zero_d_def)
  then show ?thesis using loop a by simp
qed

theorem classification_witness:
  "\<exists>st'. loop 3 [Fin 1, Fin (-2), PInf] ((init 3 boot)\<lparr>ix := 1\<rparr>) = Inr st' \<and>
         acc st' = acc (foldl step_spec (init 3 boot) [Fin 1, Fin (-2), PInf])"
proof -
  have h1: "(3::int) = int (length [Fin 1, Fin (-2), PInf])" by simp
  have h2: "\<forall>v\<in>set [Fin 1, Fin (-2), PInf]. v \<noteq> NaN" by simp
  from classification [OF h1, of boot] h2 show ?thesis by blast
qed

theorem classification_counterexample:
  "map_sum id acc (loop 1 [NaN] ((init 1 boot)\<lparr>ix := 1\<rparr>)) = Inr (NaN, Fin 0, Fin 0, NaN, Fin 0) \<and>
   acc (foldl step_spec (init 1 boot) [NaN]) = (NaN, Fin 0, Fin 0, Fin 0, Fin 0)"
  by (simp add: run_defs loop.simps acc_def step_spec_def step_defs dgt_def)

section \<open>Faults, prefixes of the loop, and magnitudes\<close>

lemma ix_foldl_iter: "ix (foldl iter st xs) = ix st + int (length xs)"
  by (induction xs arbitrary: st) simp_all

text \<open>
  The loop run with the bound \<open>k\<close> stops in the state in which the full run is
  after \<open>k\<close> iterations: the full run goes on from there.
\<close>

lemma loop_resume:
  assumes "ix st = 1" and "k \<le> length x"
  shows "\<exists>a. loop (int k) x st = Inr a \<and> loop (int (length x)) x st = loop (int (length x)) x a"
proof -
  let ?a = "foldl iter st (take k x)"
  have "ix ?a = int k + 1" using assms by (simp add: ix_foldl_iter min_def)
  then have "loop (int (length x)) x ?a = Inr (foldl iter ?a (take (length x - k) (drop k x)))"
    using assms(2) by (intro loop_foldl_aux) simp_all
  also have "foldl iter ?a (take (length x - k) (drop k x)) = foldl iter st (take k x @ drop k x)"
    by (simp del: append_take_drop_id)
  finally have "loop (int (length x)) x ?a = loop (int (length x)) x st"
    using assms(1) by (simp add: loop_foldl)
  then show ?thesis using assms by (simp add: loop_foldl)
qed

text \<open>A read past the end of the array is the only fault there is.\<close>

lemma loop_out_of_bounds:
  "ix st = int j + 1 \<Longrightarrow> j + d = length x \<Longrightarrow> int (length x) < n \<Longrightarrow>
   loop n x st = Inl OutOfBounds"
proof (induction d arbitrary: j st)
  case 0
  then have "rd x (ix st) = None" by (simp add: rd_def)
  then show ?case using 0 by (subst loop.simps) simp
next
  case (Suc d)
  then have "rd x (ix st) = Some (x ! j)" by (simp add: rd_def)
  then have "loop n x st = loop n x (iter st (x ! j))"
    using Suc.prems by (subst loop.simps) simp
  also have "\<dots> = Inl OutOfBounds"
    using Suc.prems by (intro Suc.IH [of _ "Suc j"]) simp_all
  finally show ?case .
qed

lemma enorm_out_of_bounds: "int (length x) < n \<Longrightarrow> enorm st n x = Inl OutOfBounds"
  using loop_out_of_bounds [of "(init n st)\<lparr>ix := 1\<rparr>" 0 "length x" x n]
  by (simp add: enorm_def)


text \<open>
  Two elements \<open>10^300\<close> are large and two elements \<open>10^-300\<close> are small: the scaled
  sums are \<open>2\<close>, and the results \<open>10^300 * sqrt 2\<close> and \<open>10^-300 * sqrt 2\<close>. These are
  runs in exact arithmetic: they show the path taken, not the rounding.
\<close>

lemma enorm_large:
  "map_sum id fst (enorm boot 2 [Fin (10 ^ 300), Fin (10 ^ 300)]) = Inr (Fin (10 ^ 300 * sqrt 2))"
  by (simp add: run_defs loop.simps)

lemma enorm_small:
  "map_sum id fst (enorm boot 2 [Fin (1 / 10 ^ 300), Fin (1 / 10 ^ 300)]) =
     Inr (Fin (sqrt 2 / 10 ^ 300))"
  by (simp add: run_defs loop.simps)

text \<open>With a large element the small ones do not count: line 147 does not read \<open>s3\<close>.\<close>

lemma enorm_large_small:
  "map_sum id fst (enorm boot 2 [Fin (10 ^ 250), Fin (1 / 10 ^ 250)]) = Inr (Fin (10 ^ 250))"
  by (simp add: run_defs loop.simps)

section \<open>The effects of a call\<close>




end
